theory Spec2Isabelle
  imports Main "HOL-Library.Sublist" "HOL-Library.Word"
begin

section \<open>Go strings and the functions of package strings the relay uses\<close>


fun Split :: "string \<Rightarrow> char \<Rightarrow> string list" where
  "Split [] sep = [[]]"
| "Split (c # cs) sep =
     (if c = sep then [] # Split cs sep
      else (case Split cs sep of [] \<Rightarrow> [[c]] | p # ps \<Rightarrow> (c # p) # ps))"

fun Join :: "string list \<Rightarrow> string \<Rightarrow> string" where
  "Join [] sep = []"
| "Join [x] sep = x"
| "Join (x # y # ys) sep = x @ sep @ Join (y # ys) sep"

text \<open>
  \<open>strings.TrimSpace\<close> removes leading and trailing white space as Unicode defines it
  (\<open>unicode.IsSpace\<close>): the six ASCII characters tab, line feed, vertical tab, form feed,
  carriage return and space, and the code points U+0085, U+00A0, U+1680, U+2000 to
  U+200A, U+2028, U+2029, U+202F, U+205F and U+3000. \<open>spaceRunes\<close> lists their UTF-8
  encodings. Go decodes one rune at the front of the string (\<open>TrimLeftFunc\<close>) and one
  rune at its end (\<open>TrimRightFunc\<close>); a byte sequence that is not the encoding of a
  white-space rune stops the trimming, also when it is not valid UTF-8.
\<close>

definition spaceRunes :: "string list" where
  "spaceRunes =
    [[CHR 0x09], [CHR 0x0A], [CHR 0x0B], [CHR 0x0C], [CHR 0x0D], [CHR 0x20],
     [CHR 0xC2, CHR 0x85], [CHR 0xC2, CHR 0xA0],
     [CHR 0xE1, CHR 0x9A, CHR 0x80],
     [CHR 0xE2, CHR 0x80, CHR 0x80], [CHR 0xE2, CHR 0x80, CHR 0x81],
     [CHR 0xE2, CHR 0x80, CHR 0x82], [CHR 0xE2, CHR 0x80, CHR 0x83],
     [CHR 0xE2, CHR 0x80, CHR 0x84], [CHR 0xE2, CHR 0x80, CHR 0x85],
     [CHR 0xE2, CHR 0x80, CHR 0x86], [CHR 0xE2, CHR 0x80, CHR 0x87],
     [CHR 0xE2, CHR 0x80, CHR 0x88], [CHR 0xE2, CHR 0x80, CHR 0x89],
     [CHR 0xE2, CHR 0x80, CHR 0x8A],
     [CHR 0xE2, CHR 0x80, CHR 0xA8], [CHR 0xE2, CHR 0x80, CHR 0xA9],
     [CHR 0xE2, CHR 0x80, CHR 0xAF],
     [CHR 0xE2, CHR 0x81, CHR 0x9F],
     [CHR 0xE3, CHR 0x80, CHR 0x80]]"

text \<open>
  \<open>stripLeft W s\<close> removes from the front of \<open>s\<close> every leading occurrence of a byte
  sequence of \<open>W\<close>, one after the other, until none is left.
\<close>

function stripLeft :: "string list \<Rightarrow> string \<Rightarrow> string" where
  "stripLeft W s =
     (case find (\<lambda>w. w \<noteq> [] \<and> prefix w s) W of
        None \<Rightarrow> s
      | Some w \<Rightarrow> stripLeft W (drop (length w) s))"
  by pat_completeness auto
termination
  by (relation "measure (\<lambda>(W, s). length s)") (auto simp: find_Some_iff prefix_def)

declare stripLeft.simps [simp del]

text \<open>Trimming at the end reads the string backwards: the last rune first.\<close>

definition stripRight :: "string list \<Rightarrow> string \<Rightarrow> string" where
  "stripRight W s = rev (stripLeft (map rev W) (rev s))"

definition trimLeftSpace :: "string \<Rightarrow> string" where
  "trimLeftSpace s = stripLeft spaceRunes s"

definition trimRightSpace :: "string \<Rightarrow> string" where
  "trimRightSpace s = stripRight spaceRunes s"

definition TrimSpace :: "string \<Rightarrow> string" where
  "TrimSpace s = trimRightSpace (trimLeftSpace s)"

text \<open>
  Two properties of a list of encodings, both decidable by evaluation: no encoding is
  a proper prefix of another, and no proper non-empty tail of an encoding is a prefix of
  an encoding. The white-space encodings have both, read forwards and backwards.
\<close>

definition prefixFree :: "string list \<Rightarrow> bool" where
  "prefixFree W = list_all (\<lambda>v. list_all (\<lambda>w. prefix v w \<longrightarrow> v = w) W) W"

definition overlapFree :: "string list \<Rightarrow> bool" where
  "overlapFree W =
     list_all (\<lambda>v. list_all (\<lambda>w. list_all (\<lambda>k. \<not> prefix (drop k v) w) [1..<length v]) W) W"

text \<open>A byte that occurs in no white-space encoding, such as the comma and the slash.\<close>

definition notInSpace :: "char \<Rightarrow> bool" where
  "notInSpace c = list_all (\<lambda>w. c \<notin> set w) spaceRunes"

section \<open>The trace protocol\<close>

text \<open>
  \<open>traceContains\<close> (the server's membership test) and \<open>appendTrace\<close> (the forwarder's
  append) work on the value of the header \<open>X-WebhookRelay-Trace\<close>. Each \<open>for ... range\<close>
  loop is a recursive function over the parts; the early \<open>return true\<close> is the first
  branch of the loop of \<open>traceContains\<close>.
\<close>

fun traceContains_loop :: "string list \<Rightarrow> string \<Rightarrow> bool" where
  "traceContains_loop [] instanceID = False"
| "traceContains_loop (p # ps) instanceID =
     (if TrimSpace p = instanceID then True else traceContains_loop ps instanceID)"

definition traceContains :: "string \<Rightarrow> string \<Rightarrow> bool" where
  "traceContains trace instanceID =
     (let instanceID = TrimSpace instanceID in
      if instanceID = [] then False
      else traceContains_loop (Split trace CHR '','') instanceID)"

fun appendTrace_loop :: "string list \<Rightarrow> string list \<Rightarrow> string list" where
  "appendTrace_loop [] out = out"
| "appendTrace_loop (p # ps) out =
     (let p = TrimSpace p in
      if p \<noteq> [] then appendTrace_loop ps (out @ [p]) else appendTrace_loop ps out)"

definition appendTrace :: "string \<Rightarrow> string \<Rightarrow> string" where
  "appendTrace existing instanceID =
     (let existing = TrimSpace existing;
          instanceID = TrimSpace instanceID in
      if instanceID = [] then existing
      else if existing = [] then instanceID
      else Join (appendTrace_loop (Split existing CHR '','') [] @ [instanceID]) '','')"

text \<open>
  The append operation in the words of the specification: split on commas, trim each
  segment, drop the empty ones, append the trimmed relay ID, rejoin with commas.
\<close>

definition spec_append :: "string \<Rightarrow> string \<Rightarrow> string" where
  "spec_append trace relayID =
     Join (filter (\<lambda>p. p \<noteq> []) (map TrimSpace (Split trace CHR '','')) @ [TrimSpace relayID]) '',''"

section \<open>Listen paths: path.Clean, normalizeBasePath and joinPaths\<close>


text \<open>
  \<open>path.Clean\<close> reads the path one slash-separated element at a time and writes the
  elements it keeps to a buffer. Here the buffer \<open>out\<close> is the list of the elements written
  so far (the slashes between them are added at the end), and \<open>dotdot\<close> is the number of
  leading elements that a \<open>..\<close> must not remove (Go keeps the corresponding byte index).
  The four cases of the loop are those of the \<open>switch\<close>: an empty element, a \<open>.\<close> element,
  a \<open>..\<close> element (backtrack if possible, else keep it if the path is not rooted), and a
  real element.
\<close>

fun Clean_loop :: "bool \<Rightarrow> string list \<Rightarrow> string list \<Rightarrow> nat \<Rightarrow> string list" where
  "Clean_loop rooted [] out dotdot = out"
| "Clean_loop rooted (e # es) out dotdot =
     (if e = [] then Clean_loop rooted es out dotdot
      else if e = ''.'' then Clean_loop rooted es out dotdot
      else if e = ''..'' then
        (if length out > dotdot then Clean_loop rooted es (butlast out) dotdot
         else if \<not> rooted then Clean_loop rooted es (out @ [''..'']) (length out + 1)
         else Clean_loop rooted es out dotdot)
      else Clean_loop rooted es (out @ [e]) dotdot)"

definition Clean :: "string \<Rightarrow> string" where
  "Clean path =
     (if path = [] then ''.''
      else
        let rooted = (hd path = CHR ''/'');
            out = Clean_loop rooted (Split path CHR ''/'') [] 0
        in if rooted then ''/'' @ Join out ''/''
           else if out = [] then ''.''
           else Join out ''/'')"





section \<open>Letter case, header names and base-32\<close>

text \<open>
  The ASCII case mappings. \<open>strings.ToUpper\<close> and \<open>strings.ToLower\<close> map an all-ASCII string
  byte by byte; a string with a byte above \<open>0x7F\<close> goes through the Unicode case tables
  (\<open>strings.Map(unicode.ToUpper, s)\<close>), which are not part of this development: that
  mapping is the parameter \<open>unicodeMap\<close>. Nothing proved below depends on what it returns.
\<close>

definition lowerLetters :: string where
  "lowerLetters = ''abcdefghijklmnopqrstuvwxyz''"

definition upperLetters :: string where
  "upperLetters = ''ABCDEFGHIJKLMNOPQRSTUVWXYZ''"

definition toUpperByte :: "char \<Rightarrow> char" where
  "toUpperByte c = (case map_of (zip lowerLetters upperLetters) c of Some u \<Rightarrow> u | None \<Rightarrow> c)"

definition toLowerByte :: "char \<Rightarrow> char" where
  "toLowerByte c = (case map_of (zip upperLetters lowerLetters) c of Some l \<Rightarrow> l | None \<Rightarrow> c)"

definition isASCII :: "string \<Rightarrow> bool" where
  "isASCII s = list_all (\<lambda>c. (of_char c :: nat) < 128) s"

definition ToUpper :: "(string \<Rightarrow> string) \<Rightarrow> string \<Rightarrow> string" where
  "ToUpper unicodeMap s = (if isASCII s then map toUpperByte s else unicodeMap s)"

definition ToLower :: "(string \<Rightarrow> string) \<Rightarrow> string \<Rightarrow> string" where
  "ToLower unicodeMap s = (if isASCII s then map toLowerByte s else unicodeMap s)"

text \<open>
  \<open>strings.EqualFold s t\<close> for an ASCII string \<open>t\<close> (the code passes \<open>"host"\<close>). Under
  Unicode simple case folding an ASCII letter is equal to its other case; beyond that,
  \<open>s\<close> and \<open>S\<close> are equal to U+017F (bytes \<open>C5 BF\<close>) and \<open>k\<close> and \<open>K\<close> to U+212A (bytes
  \<open>E2 84 AA\<close>). Any other byte above \<open>0x7F\<close> in \<open>s\<close> makes the strings differ.
\<close>

definition foldEqASCII :: "char \<Rightarrow> char \<Rightarrow> bool" where
  "foldEqASCII a b = (a = b \<or> toLowerByte a = toLowerByte b)"

fun EqualFold :: "string \<Rightarrow> string \<Rightarrow> bool" where
  "EqualFold [] [] = True"
| "EqualFold [] (b # t) = False"
| "EqualFold (a # s) [] = False"
| "EqualFold (a # s) (b # t) =
     (if (of_char a :: nat) < 128 then foldEqASCII a b \<and> EqualFold s t
      else (case s of
              [] \<Rightarrow> False
            | c # s' \<Rightarrow>
                if a = CHR 0xC5 \<and> c = CHR 0xBF \<and> (b = CHR ''s'' \<or> b = CHR ''S'') then EqualFold s' t
                else (case s' of
                        [] \<Rightarrow> False
                      | d # s'' \<Rightarrow>
                          if a = CHR 0xE2 \<and> c = CHR 0x84 \<and> d = CHR 0xAA \<and>
                             (b = CHR ''k'' \<or> b = CHR ''K'')
                          then EqualFold s'' t
                          else False)))"

text \<open>
  \<open>http.CanonicalHeaderKey\<close> (\<open>textproto.CanonicalMIMEHeaderKey\<close>): a key holding a byte
  that is not a token character (a space included) is returned unchanged; otherwise the
  first letter and every letter after a hyphen become upper case, the others lower case.
\<close>

definition validHeaderFieldByte :: "char \<Rightarrow> bool" where
  "validHeaderFieldByte c =
     (c \<in> set lowerLetters \<or> c \<in> set upperLetters \<or> c \<in> set ''0123456789'' \<or>
      (of_char c :: nat) \<in> {33, 35, 36, 37, 38, 39, 42, 43, 45, 46, 94, 95, 96, 124, 126})"

fun canonical_loop :: "bool \<Rightarrow> string \<Rightarrow> string" where
  "canonical_loop upper [] = []"
| "canonical_loop upper (c # cs) =
     (let c = (if upper then toUpperByte c else toLowerByte c)
      in c # canonical_loop (c = CHR ''-'') cs)"

definition CanonicalHeaderKey :: "string \<Rightarrow> string" where
  "CanonicalHeaderKey s = (if list_all validHeaderFieldByte s then canonical_loop True s else s)"

text \<open>
  \<open>base32.StdEncoding.WithPadding(base32.NoPadding).EncodeToString\<close>: the bits of the
  input, most significant first, are cut into groups of five, the last group filled with
  zero bits, and each group indexes the alphabet. No \<open>=\<close> is appended.
\<close>

definition encodeStd :: string where
  "encodeStd = ''ABCDEFGHIJKLMNOPQRSTUVWXYZ234567''"

definition bitsOf :: "char \<Rightarrow> bool list" where
  "bitsOf c = map (\<lambda>i. bit (of_char c :: nat) i) [7, 6, 5, 4, 3, 2, 1, 0]"

definition quintet :: "bool list \<Rightarrow> nat" where
  "quintet bs = foldl (\<lambda>n b. 2 * n + (if b then 1 else 0)) 0 (take 5 (bs @ replicate 5 False))"

fun quintets :: "bool list \<Rightarrow> nat list" where
  "quintets (a # b # c # d # e # r) = quintet [a, b, c, d, e] # quintets r"
| "quintets [] = []"
| "quintets r = [quintet r]"

definition EncodeToString :: "string \<Rightarrow> string" where
  "EncodeToString src = map (\<lambda>q. encodeStd ! q) (quintets (concat (map bitsOf src)))"

section \<open>HTTP headers\<close>

text \<open>
  An \<open>http.Header\<close> is a map from header names to lists of values. \<open>Add\<close>, \<open>Set\<close>, \<open>Get\<close>
  and \<open>Del\<close> canonicalize the key they are given. Where the code ranges over a Go map
  (\<open>copyHeaders\<close> over the inbound headers, \<open>applyHeaderOverrides\<close> over the overrides), the
  map is given as the list of its entries in the order the loop visits them; Go leaves
  that order open, and every statement below holds for every order.
\<close>

type_synonym header = "string \<rightharpoonup> string list"

definition Add :: "header \<Rightarrow> string \<Rightarrow> string \<Rightarrow> header" where
  "Add h key v =
     (let k = CanonicalHeaderKey key
      in h(k \<mapsto> (case h k of None \<Rightarrow> [] | Some vs \<Rightarrow> vs) @ [v]))"

definition Set :: "header \<Rightarrow> string \<Rightarrow> string \<Rightarrow> header" where
  "Set h key v = h(CanonicalHeaderKey key \<mapsto> [v])"

definition Del :: "header \<Rightarrow> string \<Rightarrow> header" where
  "Del h key = h(CanonicalHeaderKey key := None)"

definition Get :: "header \<Rightarrow> string \<Rightarrow> string" where
  "Get h key = (case h (CanonicalHeaderKey key) of None \<Rightarrow> [] | Some [] \<Rightarrow> [] | Some (v # _) \<Rightarrow> v)"

section \<open>Configuration and requests\<close>

text \<open>
  \<open>DestinationConfig\<close> and \<open>ResolvedRelay\<close> are the structs of package config; the header
  overrides of a destination (a Go map) are the list of its entries. Of an inbound
  \<open>http.Request\<close> the handler reads the method, the headers and the body. The body is a
  reader: \<open>Body\<close> holds the bytes it delivers and \<open>BodyErr\<close> tells whether reading ends with
  an error instead of the end of the stream.
\<close>

record DestinationConfig =
  URL :: string
  DestMethod :: string
  Headers :: "(string \<times> string) list"
  Description :: string

record ResolvedRelay =
  ID :: string
  Name :: string
  ListenPath :: string
  Methods :: "string list"
  Destinations :: "DestinationConfig list"

record Request =
  Method :: string
  Header :: "(string \<times> string list) list"
  Body :: string
  BodyErr :: bool

text \<open>The outbound request a forward attempt builds.\<close>

record OutRequest =
  outMethod :: string
  outURL :: string
  outHost :: string
  outHeader :: header
  outBody :: string

section \<open>The forwarder\<close>

definition HeaderTrace :: string where
  "HeaderTrace = ''X-WebhookRelay-Trace''"

definition HeaderRequestID :: string where
  "HeaderRequestID = ''X-WebhookRelay-Request-Id''"

definition hopByHopHeaders :: "string list" where
  "hopByHopHeaders =
     [''Connection'', ''Proxy-Connection'', ''Keep-Alive'', ''Proxy-Authenticate'',
      ''Proxy-Authorization'', ''Te'', ''Trailer'', ''Transfer-Encoding'', ''Upgrade'']"

definition isHopByHopHeader :: "string \<Rightarrow> bool" where
  "isHopByHopHeader k = (CanonicalHeaderKey k \<in> set hopByHopHeaders)"

fun copyHeaders_values :: "header \<Rightarrow> string \<Rightarrow> string list \<Rightarrow> header" where
  "copyHeaders_values dst k [] = dst"
| "copyHeaders_values dst k (v # vv) = copyHeaders_values (Add dst k v) k vv"

fun copyHeaders :: "header \<Rightarrow> (string \<times> string list) list \<Rightarrow> header" where
  "copyHeaders dst [] = dst"
| "copyHeaders dst ((k, vv) # src) =
     (let ck = CanonicalHeaderKey k
      in if isHopByHopHeader ck then copyHeaders dst src
         else copyHeaders (copyHeaders_values dst k vv) src)"

fun applyHeaderOverrides :: "header \<Rightarrow> (string \<times> string) list \<Rightarrow> header" where
  "applyHeaderOverrides h [] = h"
| "applyHeaderOverrides h ((k, v) # overrides) =
     (if EqualFold k ''host'' then applyHeaderOverrides h overrides
      else applyHeaderOverrides (Set h k v) overrides)"

text \<open>
  \<open>http.NewRequestWithContext\<close> fails on a method that is not a token and on a URL that does
  not parse; otherwise it returns a request with no header yet whose \<open>Host\<close> is the host of
  the URL. URL parsing is the parameter \<open>parseURL\<close>, which returns that host.
\<close>

definition validMethod :: "string \<Rightarrow> bool" where
  "validMethod m = (m \<noteq> [] \<and> list_all validHeaderFieldByte m)"

definition NewRequest :: "(string \<Rightarrow> string option) \<Rightarrow> string \<Rightarrow> string \<Rightarrow> string \<Rightarrow> OutRequest option" where
  "NewRequest parseURL method url body =
     (let method = (if method = [] then ''GET'' else method)
      in if \<not> validMethod method then None
         else (case parseURL url of
                 None \<Rightarrow> None
               | Some host \<Rightarrow>
                   Some \<lparr>outMethod = method, outURL = url, outHost = host,
                         outHeader = Map.empty, outBody = body\<rparr>))"

text \<open>
  \<open>forwardOne\<close> up to the point where the request is sent: the request it hands to the HTTP
  client, or \<open>None\<close> when the request cannot be built. Waiting for a slot of the semaphore,
  the timeout and the classification of the client's result (which is only logged) are
  not modelled.
\<close>

definition forwardOne ::
  "(string \<Rightarrow> string option) \<Rightarrow> string \<Rightarrow> string \<Rightarrow> string \<Rightarrow> Request \<Rightarrow> string \<Rightarrow>
   DestinationConfig \<Rightarrow> OutRequest option" where
  "forwardOne parseURL reqID relayName relayID inbound body dest =
     (let method = (if DestMethod dest \<noteq> [] then DestMethod dest else Method inbound)
      in case NewRequest parseURL method (URL dest) body of
           None \<Rightarrow> None
         | Some outReq \<Rightarrow>
             let h = copyHeaders (outHeader outReq) (Header inbound);
                 outReq = outReq\<lparr>outHost := []\<rparr>;
                 h = Del h ''Host'';
                 h = applyHeaderOverrides h (Headers dest);
                 relayID = TrimSpace relayID;
                 h = (if relayID \<noteq> []
                      then Set h HeaderTrace (appendTrace (Get h HeaderTrace) relayID)
                      else h);
                 h = Set h HeaderRequestID reqID
             in Some (outReq\<lparr>outHeader := h\<rparr>))"

text \<open>
  One call of \<open>ForwardAsync\<close>, as the handler makes it, and the attempts it starts: one
  \<open>forwardOne\<close> per destination (each in its own goroutine; the list is in the order of the
  destinations).
\<close>

record ForwardCall =
  callReqID :: string
  callRelayName :: string
  callRelayID :: string
  callInbound :: Request
  callBody :: string
  callDestinations :: "DestinationConfig list"

definition ForwardAsync :: "(string \<Rightarrow> string option) \<Rightarrow> ForwardCall \<Rightarrow> OutRequest option list" where
  "ForwardAsync parseURL c =
     map (forwardOne parseURL (callReqID c) (callRelayName c) (callRelayID c) (callInbound c) (callBody c))
       (callDestinations c)"

section \<open>The relay handler\<close>

fun methodAllowed_loop :: "(string \<Rightarrow> string) \<Rightarrow> string \<Rightarrow> string list \<Rightarrow> bool" where
  "methodAllowed_loop unicodeMap m [] = False"
| "methodAllowed_loop unicodeMap m (a # allowed) =
     (if m = ToUpper unicodeMap (TrimSpace a) then True
      else methodAllowed_loop unicodeMap m allowed)"

definition methodAllowed :: "(string \<Rightarrow> string) \<Rightarrow> string \<Rightarrow> string list \<Rightarrow> bool" where
  "methodAllowed unicodeMap method allowed =
     (if length allowed = 0 then True
      else methodAllowed_loop unicodeMap (ToUpper unicodeMap (TrimSpace method)) allowed)"

text \<open>
  \<open>newRequestID\<close>: \<open>rnd\<close> is what \<open>rand.Read\<close> delivers, the twelve random bytes or \<open>None\<close>
  when the source fails. The result is the ID and whether an error is returned.
\<close>

definition newRequestID :: "(string \<Rightarrow> string) \<Rightarrow> string option \<Rightarrow> string \<times> bool" where
  "newRequestID unicodeMap rnd =
     (case rnd of
        None \<Rightarrow> ([], True)
      | Some b \<Rightarrow> (ToLower unicodeMap (EncodeToString b), False))"

text \<open>
  What one run of \<open>handleRelay\<close> does: the response it writes (status, headers, body), the
  bytes it has read from the request body and whether it closed it, and its call of the
  forwarder, if any. \<open>fwd\<close> tells whether the forwarder is non-nil. Log lines are left out.
\<close>

record Response =
  Status :: nat
  RespHeader :: header
  Written :: string

record Handled =
  resp :: Response
  bodyRead :: string
  bodyClosed :: bool
  forwardCall :: "ForwardCall option"

definition StatusAccepted :: nat where "StatusAccepted = 202"
definition StatusBadRequest :: nat where "StatusBadRequest = 400"
definition StatusMethodNotAllowed :: nat where "StatusMethodNotAllowed = 405"

definition handleRelay ::
  "(string \<Rightarrow> string) \<Rightarrow> string option \<Rightarrow> bool \<Rightarrow> ResolvedRelay \<Rightarrow> Request \<Rightarrow> Handled" where
  "handleRelay unicodeMap rnd fwd relay req =
     (if \<not> methodAllowed unicodeMap (Method req) (Methods relay) then
        \<lparr>resp = \<lparr>Status = StatusMethodNotAllowed, RespHeader = Map.empty, Written = []\<rparr>,
         bodyRead = [], bodyClosed = False, forwardCall = None\<rparr>
      else if ID relay \<noteq> [] \<and>
              traceContains (Get (map_of (Header req)) ''X-WebhookRelay-Trace'') (ID relay) then
        \<lparr>resp = \<lparr>Status = StatusAccepted,
                  RespHeader = Set Map.empty ''X-Relay-Dropped'' ''self_loop'',
                  Written = ''accepted''\<rparr>,
         bodyRead = Body req, bodyClosed = True, forwardCall = None\<rparr>
      else if BodyErr req then
        \<lparr>resp = \<lparr>Status = StatusBadRequest, RespHeader = Map.empty, Written = []\<rparr>,
         bodyRead = Body req, bodyClosed = False, forwardCall = None\<rparr>
      else
        let reqID = fst (newRequestID unicodeMap rnd)
        in \<lparr>resp = \<lparr>Status = StatusAccepted,
                     RespHeader = Set Map.empty ''X-Relay-Request-Id'' reqID,
                     Written = ''accepted''\<rparr>,
            bodyRead = Body req, bodyClosed = True,
            forwardCall =
              (if fwd then
                 Some \<lparr>callReqID = reqID, callRelayName = Name relay, callRelayID = ID relay,
                       callInbound = req, callBody = Body req,
                       callDestinations = Destinations relay\<rparr>
               else None)\<rparr>)"

text \<open>The destination attempts one inbound call leads to.\<close>

definition attempts :: "(string \<Rightarrow> string option) \<Rightarrow> Handled \<Rightarrow> OutRequest option list" where
  "attempts parseURL r = (case forwardCall r of None \<Rightarrow> [] | Some c \<Rightarrow> ForwardAsync parseURL c)"

section \<open>SHA-256 and the relay ID\<close>

text \<open>
  \<open>sha256.Sum256\<close>, after FIPS 180-4: the message is padded with the byte \<open>0x80\<close>, zero bytes
  and its length in bits as a 64-bit big-endian number to a multiple of 64 bytes; each
  block of 64 bytes gives 16 big-endian 32-bit words, extended to a schedule of 64 words;
  64 rounds update eight working words, which are added to the hash value. The digest is
  the eight words of the final hash value, big-endian: 32 bytes. The round constants
  \<open>K256\<close> and the initial hash value \<open>H256\<close> are written in decimal.
\<close>

unbundle bit_operations_syntax

type_synonym word32 = "32 word"

definition K256 :: "word32 list" where
  "K256 =
    [1116352408, 1899447441, 3049323471, 3921009573, 961987163, 1508970993,
     2453635748, 2870763221, 3624381080, 310598401, 607225278, 1426881987,
     1925078388, 2162078206, 2614888103, 3248222580, 3835390401, 4022224774,
     264347078, 604807628, 770255983, 1249150122, 1555081692, 1996064986,
     2554220882, 2821834349, 2952996808, 3210313671, 3336571891, 3584528711,
     113926993, 338241895, 666307205, 773529912, 1294757372, 1396182291,
     1695183700, 1986661051, 2177026350, 2456956037, 2730485921, 2820302411,
     3259730800, 3345764771, 3516065817, 3600352804, 4094571909, 275423344,
     430227734, 506948616, 659060556, 883997877, 958139571, 1322822218,
     1537002063, 1747873779, 1955562222, 2024104815, 2227730452, 2361852424,
     2428436474, 2756734187, 3204031479, 3329325298]"

definition H256 :: "word32 \<times> word32 \<times> word32 \<times> word32 \<times> word32 \<times> word32 \<times> word32 \<times> word32" where
  "H256 = (1779033703, 3144134277, 1013904242, 2773480762,
     1359893119, 2600822924, 528734635, 1541459225)"

definition Ch :: "word32 \<Rightarrow> word32 \<Rightarrow> word32 \<Rightarrow> word32" where
  "Ch x y z = (x AND y) XOR (NOT x AND z)"

definition Maj :: "word32 \<Rightarrow> word32 \<Rightarrow> word32 \<Rightarrow> word32" where
  "Maj x y z = (x AND y) XOR (x AND z) XOR (y AND z)"

definition bigSigma0 :: "word32 \<Rightarrow> word32" where
  "bigSigma0 x = word_rotr 2 x XOR word_rotr 13 x XOR word_rotr 22 x"

definition bigSigma1 :: "word32 \<Rightarrow> word32" where
  "bigSigma1 x = word_rotr 6 x XOR word_rotr 11 x XOR word_rotr 25 x"

definition smallSigma0 :: "word32 \<Rightarrow> word32" where
  "smallSigma0 x = word_rotr 7 x XOR word_rotr 18 x XOR drop_bit 3 x"

definition smallSigma1 :: "word32 \<Rightarrow> word32" where
  "smallSigma1 x = word_rotr 17 x XOR word_rotr 19 x XOR drop_bit 10 x"

definition bytes32 :: "word32 \<Rightarrow> string" where
  "bytes32 w = map (\<lambda>s. char_of (unat (take_bit 8 (drop_bit s w)))) [24, 16, 8, 0]"

definition bytes64 :: "64 word \<Rightarrow> string" where
  "bytes64 w = map (\<lambda>s. char_of (unat (take_bit 8 (drop_bit s w)))) [56, 48, 40, 32, 24, 16, 8, 0]"

definition padMessage :: "string \<Rightarrow> string" where
  "padMessage m =
     m @ [CHR 0x80] @ replicate ((119 - length m mod 64) mod 64) (CHR 0x00) @
     bytes64 (of_nat (8 * length m))"

definition blocksOf :: "string \<Rightarrow> string list" where
  "blocksOf p = map (\<lambda>i. take 64 (drop (64 * i) p)) [0..<length p div 64]"

definition wordOf :: "string \<Rightarrow> word32" where
  "wordOf bs = foldl (\<lambda>w c. push_bit 8 w + of_char c) 0 bs"

definition wordsOf :: "string \<Rightarrow> word32 list" where
  "wordsOf block = map (\<lambda>j. wordOf (take 4 (drop (4 * j) block))) [0..<16]"

definition schedule :: "word32 list \<Rightarrow> word32 list" where
  "schedule w16 =
     foldl (\<lambda>w t. w @ [smallSigma1 (w ! (t - 2)) + w ! (t - 7) + smallSigma0 (w ! (t - 15)) + w ! (t - 16)])
       w16 [16..<64]"

type_synonym hash256 =
  "word32 \<times> word32 \<times> word32 \<times> word32 \<times> word32 \<times> word32 \<times> word32 \<times> word32"

fun round256 :: "hash256 \<Rightarrow> word32 \<times> word32 \<Rightarrow> hash256" where
  "round256 (a, b, c, d, e, f, g, h) (k, w) =
     (let t1 = h + bigSigma1 e + Ch e f g + k + w;
          t2 = bigSigma0 a + Maj a b c
      in (t1 + t2, a, b, c, d + t1, e, f, g))"

fun addHash :: "hash256 \<Rightarrow> hash256 \<Rightarrow> hash256" where
  "addHash (a, b, c, d, e, f, g, h) (a', b', c', d', e', f', g', h') =
     (a + a', b + b', c + c', d + d', e + e', f + f', g + g', h + h')"

definition blockStep :: "hash256 \<Rightarrow> string \<Rightarrow> hash256" where
  "blockStep hv block = addHash hv (foldl round256 hv (zip K256 (schedule (wordsOf block))))"

fun digestBytes :: "hash256 \<Rightarrow> string" where
  "digestBytes (a, b, c, d, e, f, g, h) =
     concat (map bytes32 [a, b, c, d, e, f, g, h])"

definition Sum256 :: "string \<Rightarrow> string" where
  "Sum256 m = digestBytes (foldl blockStep H256 (blocksOf (padMessage m)))"

text \<open>
  \<open>relayID\<close>: the digest of the listen path, base-32 encoded without padding, in lower
  case, cut to 16 characters. Slicing a string shorter than 16 bytes would panic; that is
  the result \<open>None\<close>.
\<close>

definition relayID :: "(string \<Rightarrow> string) \<Rightarrow> string \<Rightarrow> string option" where
  "relayID unicodeMap listenPath =
     (let sum = Sum256 listenPath;
          s = ToLower unicodeMap (EncodeToString sum)
      in if length s < 16 then None else Some (take 16 s))"

section \<open>Example values\<close>

text \<open>
  A relay that accepts \<open>POST\<close> and has one destination, and three inbound requests: a
  \<open>POST\<close> whose trace already holds the relay's ID, the same request sent with \<open>GET\<close>, and a
  \<open>POST\<close> that has not passed the relay, carrying a hop-by-hop header.
\<close>

definition exDest :: DestinationConfig where
  "exDest = \<lparr>URL = ''http://a.example/in'', DestMethod = [],
             Headers = [(''x-token'', ''t1''), (''hOsT'', ''evil.example'')], Description = []\<rparr>"

definition exRelay :: ResolvedRelay where
  "exRelay = \<lparr>ID = ''n7bnaul23xjjk7a3'', Name = ''one'', ListenPath = ''/hook'',
              Methods = [''POST''], Destinations = [exDest]\<rparr>"

definition exLoopPost :: Request where
  "exLoopPost = \<lparr>Method = ''POST'',
                 Header = [(''X-Webhookrelay-Trace'', [''aaaa, n7bnaul23xjjk7a3''])],
                 Body = ''{\"x\":1}'', BodyErr = False\<rparr>"

definition exLoopGet :: Request where
  "exLoopGet = exLoopPost\<lparr>Method := ''GET''\<rparr>"

definition exPost :: Request where
  "exPost = \<lparr>Method = ''post'',
             Header = [(''X-Webhookrelay-Trace'', [''aaaa'']), (''Connection'', [''close'']),
                       (''X-Token'', [''t0'']), (''Content-Type'', [''application/json''])],
             Body = ''{\"x\":1}'', BodyErr = False\<rparr>"

definition exParseURL :: "string \<Rightarrow> string option" where
  "exParseURL u = Some ''a.example''"

section \<open>The library models on known values\<close>

text \<open>
  The models of the Go library functions, evaluated on inputs whose results are known:
  the cases of the test table of package path for \<open>Clean\<close>, the test vectors of RFC 4648
  for base-32, the digest of \<open>abc\<close> from FIPS 180-4, and a few keys and strings for
  \<open>CanonicalHeaderKey\<close>, \<open>TrimSpace\<close>, \<open>Split\<close> and \<open>EqualFold\<close>.
\<close>

lemma Clean_known_values:
  "map Clean
     ['''', ''abc'', ''abc/def'', ''a/b/c'', ''.'', ''..'', ''../..'', ''../../abc'', ''/abc'', ''/'',
      ''abc/'', ''abc/def/'', ''a/b/c/'', ''./'', ''../'', ''../../'', ''/abc/'',
      ''abc//def//ghi'', ''//abc'', ''///abc'', ''//abc//'', ''abc//'',
      ''abc/./def'', ''/./abc/def'', ''abc/.'',
      ''abc/def/ghi/../jkl'', ''abc/def/../ghi/../jkl'', ''abc/def/..'', ''abc/def/../..'',
      ''/abc/def/../..'', ''abc/def/../../..'', ''/abc/def/../../..'',
      ''abc/def/../../../ghi/jkl/../../../mno'',
      ''abc/./../def'', ''abc//./../def'', ''abc/../../././../def''] =
     [''.'', ''abc'', ''abc/def'', ''a/b/c'', ''.'', ''..'', ''../..'', ''../../abc'', ''/abc'', ''/'',
      ''abc'', ''abc/def'', ''a/b/c'', ''.'', ''..'', ''../..'', ''/abc'',
      ''abc/def/ghi'', ''/abc'', ''/abc'', ''/abc'', ''abc'',
      ''abc/def'', ''/abc/def'', ''abc'',
      ''abc/def/jkl'', ''abc/jkl'', ''abc'', ''.'',
      ''/'', ''..'', ''/'',
      ''../../mno'',
      ''def'', ''def'', ''../../def'']"
  by code_simp

lemma EncodeToString_known_values:
  "map EncodeToString ['''', ''f'', ''fo'', ''foo'', ''foob'', ''fooba'', ''foobar''] =
     ['''', ''MY'', ''MZXQ'', ''MZXW6'', ''MZXW6YQ'', ''MZXW6YTB'', ''MZXW6YTBOI'']"
  by code_simp

lemma Sum256_known_value:
  "map (\<lambda>c. of_char c :: nat) (Sum256 ''abc'') =
     [186, 120, 22, 191, 143, 1, 207, 234, 65, 65, 64, 222, 93, 174, 34, 35,
      176, 3, 97, 163, 150, 23, 122, 156, 180, 16, 255, 97, 242, 0, 21, 173]"
  by code_simp

lemma CanonicalHeaderKey_known_values:
  "map CanonicalHeaderKey
     [''accept-encoding'', ''USER-AGENT'', ''x-webhookRelay-trace'', ''uSER-aGENT'', ''foo bar'',
      ''C@nnection'', ''te'', '''', ''a-b-c'', ''1x-y2''] =
     [''Accept-Encoding'', ''User-Agent'', ''X-Webhookrelay-Trace'', ''User-Agent'', ''foo bar'',
      ''C@nnection'', ''Te'', '''', ''A-B-C'', ''1x-Y2'']"
  by code_simp

lemma TrimSpace_known_values:
  "map TrimSpace
     ['''', ''   '', '' a b '', [CHR 0x09, CHR 0x0A, CHR ''x'', CHR 0x0D, CHR 0x0B, CHR 0x0C],
      [CHR 0xC2, CHR 0xA0, CHR ''x'', CHR 0xE2, CHR 0x80, CHR 0x83, CHR 0xE3, CHR 0x80, CHR 0x80],
      [CHR 0xC2, CHR ''x'', CHR 0x85],
      [CHR 0xE2, CHR 0x80, CHR 0x8B, CHR ''x'', CHR 0xA0]] =
     ['''', '''', ''a b'', ''x'', ''x'',
      [CHR 0xC2, CHR ''x'', CHR 0x85],
      [CHR 0xE2, CHR 0x80, CHR 0x8B, CHR ''x'', CHR 0xA0]]"
  by code_simp

lemma Split_known_values:
  "map (\<lambda>s. Split s CHR '','') ['''', ''a'', ''a,b,c'', '',a,'', '',,''] =
     [[''''], [''a''], [''a'', ''b'', ''c''], ['''', ''a'', ''''], ['''', '''', '''']]"
  by code_simp

lemma EqualFold_known_values:
  "map (\<lambda>k. EqualFold k ''host'')
     [''host'', ''Host'', ''HOST'', ''hOsT'', ''hos'', ''hosts'', ''h0st'', '''',
      [CHR ''h'', CHR ''o'', CHR 0xC5, CHR 0xBF, CHR ''t'']] =
     [True, True, True, True, False, False, False, False, True]"
  by code_simp

section \<open>Lemmas on trimming\<close>

lemma stripLeft_None: "find (\<lambda>w. w \<noteq> [] \<and> prefix w s) W = None \<Longrightarrow> stripLeft W s = s"
  by (simp add: stripLeft.simps)

lemma stripLeft_Some:
  "find (\<lambda>w. w \<noteq> [] \<and> prefix w s) W = Some w \<Longrightarrow> stripLeft W s = stripLeft W (drop (length w) s)"
  by (simp add: stripLeft.simps)

lemma stripLeft_Nil [simp]: "stripLeft W [] = []"
  by (rule stripLeft_None) (auto simp: find_None_iff)

lemma stripLeft_suffix: "suffix (stripLeft W s) s"
proof (induction W s rule: stripLeft.induct)
  case (1 W s)
  show ?case
  proof (cases "find (\<lambda>w. w \<noteq> [] \<and> prefix w s) W")
    case None
    then show ?thesis by (simp add: stripLeft_None)
  next
    case (Some w)
    with 1 have "suffix (stripLeft W (drop (length w) s)) (drop (length w) s)" by simp
    then have "suffix (stripLeft W (drop (length w) s)) s"
      using suffix_drop suffix_order.trans by blast
    with Some show ?thesis by (simp add: stripLeft_Some)
  qed
qed

lemma stripLeft_stable: "find (\<lambda>w. w \<noteq> [] \<and> prefix w (stripLeft W s)) W = None"
proof (induction W s rule: stripLeft.induct)
  case (1 W s)
  show ?case
  proof (cases "find (\<lambda>w. w \<noteq> [] \<and> prefix w s) W")
    case None
    then show ?thesis by (simp add: stripLeft_None)
  next
    case (Some w)
    with 1 show ?thesis by (simp add: stripLeft_Some)
  qed
qed

lemma stripLeft_idem [simp]: "stripLeft W (stripLeft W s) = stripLeft W s"
  by (rule stripLeft_None) (rule stripLeft_stable)

lemma prefix_sep:
  assumes "c \<notin> set w"
  shows "prefix w (a @ c # r) \<longleftrightarrow> prefix w a"
proof
  assume "prefix w (a @ c # r)"
  then consider "prefix w a" | us where "w = a @ us" "prefix us (c # r)"
    by (auto simp: prefix_append)
  then show "prefix w a"
  proof cases
    case 1 then show ?thesis .
  next
    case 2
    with assms have "us = []" by (cases us) auto
    with 2 show ?thesis by simp
  qed
next
  assume "prefix w a" then show "prefix w (a @ c # r)" by (simp add: prefix_prefix)
qed

lemma find_sep:
  assumes "\<forall>w\<in>set W. c \<notin> set w"
  shows "find (\<lambda>w. w \<noteq> [] \<and> prefix w (a @ c # r)) W = find (\<lambda>w. w \<noteq> [] \<and> prefix w a) W"
  using assms by (intro find_cong) (auto simp: prefix_sep)

lemma stripLeft_sep:
  assumes "\<forall>w\<in>set W. c \<notin> set w"
  shows "stripLeft W (a @ c # r) = stripLeft W a @ c # r"
  using assms
proof (induction W a rule: stripLeft.induct)
  case (1 W a)
  note fs = find_sep [OF "1.prems", of a r]
  show ?case
  proof (cases "find (\<lambda>w. w \<noteq> [] \<and> prefix w a) W")
    case None
    from fs None have "find (\<lambda>w. w \<noteq> [] \<and> prefix w (a @ c # r)) W = None" by (rule trans)
    then have "stripLeft W (a @ c # r) = a @ c # r" by (rule stripLeft_None)
    moreover from None have "stripLeft W a = a" by (rule stripLeft_None)
    ultimately show ?thesis by simp
  next
    case (Some w)
    then have w: "prefix w a" by (auto simp: find_Some_iff)
    then have d: "drop (length w) (a @ c # r) = drop (length w) a @ c # r"
      by (auto simp: prefix_def)
    from fs Some have "find (\<lambda>w. w \<noteq> [] \<and> prefix w (a @ c # r)) W = Some w" by (rule trans)
    then have "stripLeft W (a @ c # r) = stripLeft W (drop (length w) (a @ c # r))"
      by (rule stripLeft_Some)
    also have "\<dots> = stripLeft W (drop (length w) a) @ c # r"
      using "1.IH" [OF Some "1.prems"] by (simp only: d)
    also have "\<dots> = stripLeft W a @ c # r"
      using stripLeft_Some [OF Some] by simp
    finally show ?thesis .
  qed
qed


lemma spaceRunes_prefixFree: "prefixFree spaceRunes"
  unfolding prefixFree_def spaceRunes_def by simp

lemma spaceRunes_suffixFree: "prefixFree (map rev spaceRunes)"
  unfolding prefixFree_def spaceRunes_def by simp

lemma spaceRunes_overlapFree: "overlapFree (map rev spaceRunes)"
  unfolding overlapFree_def spaceRunes_def by (simp add: upt_rec)

lemma prefixFreeD: "prefixFree W \<Longrightarrow> v \<in> set W \<Longrightarrow> w \<in> set W \<Longrightarrow> prefix v w \<Longrightarrow> v = w"
  by (auto simp: prefixFree_def list_all_iff)

lemma overlapFreeD:
  "overlapFree W \<Longrightarrow> v \<in> set W \<Longrightarrow> w \<in> set W \<Longrightarrow> 0 < k \<Longrightarrow> k < length v \<Longrightarrow> \<not> prefix (drop k v) w"
  by (auto simp: overlapFree_def list_all_iff)

lemma find_rune:
  assumes "prefixFree W" "w \<in> set W" "w \<noteq> []" "prefix w s"
  shows "find (\<lambda>v. v \<noteq> [] \<and> prefix v s) W = Some w"
proof (cases "find (\<lambda>v. v \<noteq> [] \<and> prefix v s) W")
  case None
  with assms show ?thesis by (auto simp: find_None_iff)
next
  case (Some v)
  then have v: "v \<in> set W" "prefix v s"
    by (auto simp: find_Some_iff)
  with assms(4) have "prefix v w \<or> prefix w v"
    using prefix_same_cases by blast
  with assms v have "v = w" by (auto dest: prefixFreeD)
  with Some show ?thesis by simp
qed

lemma stripLeft_rune:
  assumes "prefixFree W" "w \<in> set W" "w \<noteq> []"
  shows "stripLeft W (w @ x) = stripLeft W x"
proof -
  have "find (\<lambda>v. v \<noteq> [] \<and> prefix v (w @ x)) W = Some w"
    using assms by (intro find_rune) auto
  then have "stripLeft W (w @ x) = stripLeft W (drop (length w) (w @ x))"
    by (rule stripLeft_Some)
  then show ?thesis by simp
qed

lemma stripLeft_snoc_rune:
  assumes "prefixFree W" "overlapFree W" "u \<in> set W" "u \<noteq> []"
  shows "stripLeft W (x @ u) = (if stripLeft W x = [] then [] else stripLeft W x @ u)"
  using assms
proof (induction W x rule: stripLeft.induct)
  case (1 W x)
  show ?case
  proof (cases "find (\<lambda>w. w \<noteq> [] \<and> prefix w x) W")
    case (Some v)
    then have v: "v \<in> set W" "v \<noteq> []" "prefix v x"
      by (auto simp: find_Some_iff)
    then have "find (\<lambda>w. w \<noteq> [] \<and> prefix w (x @ u)) W = Some v"
      using "1.prems"(1) by (intro find_rune) auto
    then have "stripLeft W (x @ u) = stripLeft W (drop (length v) (x @ u))"
      by (rule stripLeft_Some)
    also have "drop (length v) (x @ u) = drop (length v) x @ u"
      using v(3) by (auto simp: prefix_def)
    also have "stripLeft W (drop (length v) x @ u) =
        (if stripLeft W (drop (length v) x) = [] then [] else stripLeft W (drop (length v) x) @ u)"
      using "1.IH" [OF Some "1.prems"] .
    also have "stripLeft W (drop (length v) x) = stripLeft W x"
      using stripLeft_Some [OF Some] by simp
    finally show ?thesis .
  next
    case None
    then have x: "stripLeft W x = x" by (rule stripLeft_None)
    show ?thesis
    proof (cases "x = []")
      case True
      have "stripLeft W (u @ []) = stripLeft W []"
        using "1.prems" by (intro stripLeft_rune) auto
      with True show ?thesis by simp
    next
      case False
      have "find (\<lambda>w. w \<noteq> [] \<and> prefix w (x @ u)) W = None"
      proof (rule ccontr)
        assume "find (\<lambda>w. w \<noteq> [] \<and> prefix w (x @ u)) W \<noteq> None"
        then obtain v where "find (\<lambda>w. w \<noteq> [] \<and> prefix w (x @ u)) W = Some v" by auto
        then have v: "v \<in> set W" "v \<noteq> []" "prefix v (x @ u)"
          by (auto simp: find_Some_iff)
        from None v(1,2) have nx: "\<not> prefix v x" by (auto simp: find_None_iff)
        with v(3) obtain us where us: "v = x @ us" "prefix us u"
          by (auto simp: prefix_append)
        with nx have "us \<noteq> []" by auto
        with us False have k: "0 < length x" "length x < length v" by auto
        have "drop (length x) v = us" using us by simp
        with overlapFreeD [OF "1.prems"(2) v(1) "1.prems"(3) k] us(2) show False by simp
      qed
      then have "stripLeft W (x @ u) = x @ u" by (rule stripLeft_None)
      with x False show ?thesis by simp
    qed
  qed
qed

lemma stripRight_rune:
  assumes "prefixFree (map rev W)" "overlapFree (map rev W)" "w \<in> set W" "w \<noteq> []"
  shows "stripRight W (w @ x) = (if stripRight W x = [] then [] else w @ stripRight W x)"
proof -
  have "stripLeft (map rev W) (rev x @ rev w) =
      (if stripLeft (map rev W) (rev x) = [] then [] else stripLeft (map rev W) (rev x) @ rev w)"
    using assms by (intro stripLeft_snoc_rune) auto
  then show ?thesis by (simp add: stripRight_def)
qed

lemma stripRight_prefix: "prefix (stripRight W s) s"
  using stripLeft_suffix [of "map rev W" "rev s"]
  by (metis stripRight_def suffix_to_prefix rev_rev_ident)

lemma strip_commute:
  assumes "prefixFree W" "prefixFree (map rev W)" "overlapFree (map rev W)"
  shows "stripLeft W (stripRight W s) = stripRight W (stripLeft W s)"
  using assms
proof (induction W s rule: stripLeft.induct)
  case (1 W s)
  show ?case
  proof (cases "find (\<lambda>w. w \<noteq> [] \<and> prefix w s) W")
    case None
    then have s: "stripLeft W s = s" by (rule stripLeft_None)
    have "find (\<lambda>w. w \<noteq> [] \<and> prefix w (stripRight W s)) W = None"
      using None stripRight_prefix [of W s]
      by (auto simp: find_None_iff dest: prefix_order.trans)
    then have "stripLeft W (stripRight W s) = stripRight W s" by (rule stripLeft_None)
    with s show ?thesis by simp
  next
    case (Some w)
    then have w: "w \<in> set W" "w \<noteq> []" "prefix w s"
      by (auto simp: find_Some_iff)
    then obtain x where x: "s = w @ x" by (auto simp: prefix_def)
    then have dx: "drop (length w) s = x" by simp
    have IH: "stripLeft W (stripRight W x) = stripRight W (stripLeft W x)"
      using "1.IH" [OF Some "1.prems"] dx by simp
    have L: "stripLeft W s = stripLeft W x"
      using stripLeft_Some [OF Some] dx by simp
    have R: "stripRight W s = (if stripRight W x = [] then [] else w @ stripRight W x)"
      unfolding x using "1.prems" w by (intro stripRight_rune) auto
    show ?thesis
    proof (cases "stripRight W x = []")
      case True
      with R IH L show ?thesis by simp
    next
      case False
      with R have "stripLeft W (stripRight W s) = stripLeft W (w @ stripRight W x)" by simp
      also have "\<dots> = stripLeft W (stripRight W x)"
        using "1.prems" w by (intro stripLeft_rune) auto
      finally show ?thesis using IH L by simp
    qed
  qed
qed

subsection \<open>TrimSpace\<close>

lemma stripRight_Nil [simp]: "stripRight W [] = []"
  by (simp add: stripRight_def)

lemma stripRight_idem [simp]: "stripRight W (stripRight W s) = stripRight W s"
  by (simp add: stripRight_def)

lemma stripRight_sep:
  assumes "\<forall>w\<in>set W. c \<notin> set w"
  shows "stripRight W (r @ c # a) = r @ c # stripRight W a"
proof -
  have "stripLeft (map rev W) (rev a @ c # rev r) = stripLeft (map rev W) (rev a) @ c # rev r"
    using assms by (intro stripLeft_sep) auto
  then show ?thesis by (simp add: stripRight_def)
qed

lemma trim_commute: "trimLeftSpace (trimRightSpace s) = trimRightSpace (trimLeftSpace s)"
  unfolding trimLeftSpace_def trimRightSpace_def
  by (rule strip_commute [OF spaceRunes_prefixFree spaceRunes_suffixFree spaceRunes_overlapFree])

lemma TrimSpace_Nil [simp]: "TrimSpace [] = []"
  by (simp add: TrimSpace_def trimLeftSpace_def trimRightSpace_def)

lemma TrimSpace_trimLeft: "TrimSpace (trimLeftSpace s) = TrimSpace s"
  by (simp add: TrimSpace_def trimLeftSpace_def)

lemma TrimSpace_trimRight: "TrimSpace (trimRightSpace s) = TrimSpace s"
  unfolding TrimSpace_def trim_commute by (simp add: trimRightSpace_def)

lemma TrimSpace_idem [simp]: "TrimSpace (TrimSpace s) = TrimSpace s"
  by (metis TrimSpace_def TrimSpace_trimLeft TrimSpace_trimRight)

lemma set_TrimSpace: "set (TrimSpace s) \<subseteq> set s"
proof -
  have "set (trimLeftSpace s) \<subseteq> set s"
    unfolding trimLeftSpace_def using stripLeft_suffix set_mono_suffix by blast
  moreover have "set (trimRightSpace t) \<subseteq> set t" for t
    unfolding trimRightSpace_def using stripRight_prefix set_mono_prefix by blast
  ultimately show ?thesis unfolding TrimSpace_def by blast
qed

lemma comma_notInSpace: "notInSpace CHR '',''"
  by (simp add: notInSpace_def spaceRunes_def)


lemma trimLeftSpace_sep:
  "notInSpace c \<Longrightarrow> trimLeftSpace (a @ c # r) = trimLeftSpace a @ c # r"
  unfolding trimLeftSpace_def by (rule stripLeft_sep) (simp add: notInSpace_def list_all_iff)

lemma trimRightSpace_sep:
  "notInSpace c \<Longrightarrow> trimRightSpace (r @ c # a) = r @ c # trimRightSpace a"
  unfolding trimRightSpace_def by (rule stripRight_sep) (simp add: notInSpace_def list_all_iff)

subsection \<open>Split and Join\<close>

lemma Split_not_Nil [simp]: "Split s c \<noteq> []"
  by (induction s) (auto split: list.splits)

lemma Split_nosep: "c \<notin> set a \<Longrightarrow> Split a c = [a]"
  by (induction a) auto

lemma Split_first: "c \<notin> set a \<Longrightarrow> Split (a @ c # r) c = a # Split r c"
  by (induction a) auto

lemma Split_last: "c \<notin> set a \<Longrightarrow> Split (r @ c # a) c = Split r c @ [a]"
  by (induction r) (auto simp: Split_nosep split: list.splits)

lemma Split_elem_nosep: "p \<in> set (Split s c) \<Longrightarrow> c \<notin> set p"
  by (induction s arbitrary: p) (auto split: if_splits list.splits)

lemma Split_Join:
  "xs \<noteq> [] \<Longrightarrow> \<forall>x\<in>set xs. c \<notin> set x \<Longrightarrow> Split (Join xs [c]) c = xs"
proof (induction xs "[c]" rule: Join.induct)
  case 1 then show ?case by simp
next
  case (2 x) then show ?case by (simp add: Split_nosep)
next
  case (3 x y ys)
  then show ?case by (simp add: Split_first)
qed

lemma Split_trimLeft:
  assumes "notInSpace c"
  shows "Split (trimLeftSpace s) c = trimLeftSpace (hd (Split s c)) # tl (Split s c)"
proof (cases "c \<in> set s")
  case False
  moreover have "c \<notin> set (trimLeftSpace s)"
    using False stripLeft_suffix [of spaceRunes s] set_mono_suffix
    unfolding trimLeftSpace_def by blast
  ultimately show ?thesis by (simp add: Split_nosep)
next
  case True
  then obtain a r where s: "s = a @ c # r" "c \<notin> set a"
    by (auto dest: split_list_first)
  have "c \<notin> set (trimLeftSpace a)"
    using s(2) stripLeft_suffix [of spaceRunes a] set_mono_suffix
    unfolding trimLeftSpace_def by blast
  then show ?thesis
    using s assms by (simp add: trimLeftSpace_sep Split_first)
qed

lemma Split_trimRight:
  assumes "notInSpace c"
  shows "Split (trimRightSpace s) c = butlast (Split s c) @ [trimRightSpace (last (Split s c))]"
proof (cases "c \<in> set s")
  case False
  moreover have "c \<notin> set (trimRightSpace s)"
    using False stripRight_prefix [of spaceRunes s] set_mono_prefix
    unfolding trimRightSpace_def by blast
  ultimately show ?thesis by (simp add: Split_nosep)
next
  case True
  then obtain r a where s: "s = r @ c # a" "c \<notin> set a"
    by (auto dest: split_list_last)
  have "c \<notin> set (trimRightSpace a)"
    using s(2) stripRight_prefix [of spaceRunes a] set_mono_prefix
    unfolding trimRightSpace_def by blast
  then show ?thesis
    using s assms by (simp add: trimRightSpace_sep Split_last)
qed

lemma map_ends:
  assumes "S \<noteq> []" "\<And>x. f (g x) = f x" "\<And>x. f (h x) = f x"
  shows "map f (butlast (g (hd S) # tl S) @ [h (last (g (hd S) # tl S))]) = map f S"
proof (cases S)
  case Nil with assms show ?thesis by simp
next
  case (Cons x S')
  show ?thesis
  proof (cases "S' = []")
    case True
    with Cons assms show ?thesis by simp
  next
    case False
    then have "map f (butlast S' @ [last S']) = map f S'" by simp
    then have "map f (butlast S') @ [f (last S')] = map f S'" by simp
    with Cons False assms show ?thesis by simp
  qed
qed

lemma map_TrimSpace_Split:
  assumes "notInSpace c"
  shows "map TrimSpace (Split (TrimSpace t) c) = map TrimSpace (Split t c)"
proof -
  have "Split (TrimSpace t) c =
      butlast (trimLeftSpace (hd (Split t c)) # tl (Split t c)) @
        [trimRightSpace (last (trimLeftSpace (hd (Split t c)) # tl (Split t c)))]"
    unfolding TrimSpace_def Split_trimRight [OF assms] Split_trimLeft [OF assms] ..
  then show ?thesis
    using map_ends [of "Split t c" TrimSpace trimLeftSpace trimRightSpace]
    by (simp only: TrimSpace_trimLeft TrimSpace_trimRight Split_not_Nil not_False_eq_True)
qed

section \<open>Lemmas on the trace protocol\<close>

lemma appendTrace_loop_filter:
  "appendTrace_loop ps out = out @ filter (\<lambda>p. p \<noteq> []) (map TrimSpace ps)"
  by (induction ps arbitrary: out) (auto simp: Let_def)

lemma traceContains_loop_iff:
  "traceContains_loop ps i \<longleftrightarrow> (\<exists>p\<in>set ps. TrimSpace p = i)"
  by (induction ps) auto

lemma appendTrace_spec:
  assumes "TrimSpace rid \<noteq> []"
  shows "appendTrace trace rid = spec_append trace rid"
proof -
  note m = map_TrimSpace_Split [OF comma_notInSpace, of trace]
  show ?thesis
  proof (cases "TrimSpace trace = []")
    case True
    with m have "map TrimSpace (Split trace CHR '','') = [[]]" by simp
    with True assms show ?thesis
      by (simp add: appendTrace_def spec_append_def)
  next
    case False
    with assms m show ?thesis
      by (simp add: appendTrace_def spec_append_def appendTrace_loop_filter)
  qed
qed

lemma appendTrace_comma_free:
  assumes "CHR '','' \<notin> set rid"
  shows "\<forall>x\<in>set (filter (\<lambda>p. p \<noteq> []) (map TrimSpace (Split trace CHR '','')) @ [TrimSpace rid]).
           CHR '','' \<notin> set x"
  using assms set_TrimSpace Split_elem_nosep by fastforce

section \<open>Properties of the trace protocol\<close>

text \<open>
  Claim C2, as the code has it. \<open>appendTrace\<close> trims the trace before it looks at the relay
  ID, so appending the empty relay ID returns the trace with its leading and trailing
  white space removed: it returns the trace itself exactly when the trace has no such
  white space. The trace \<open>" a"\<close> comes back as \<open>"a"\<close>.
\<close>

theorem C2_append_empty_id_trims:
  "appendTrace trace '''' = TrimSpace trace \<and>
   (appendTrace trace '''' = trace \<longleftrightarrow> TrimSpace trace = trace)"
  by (simp add: appendTrace_def)

theorem C2_append_empty_id_counterexample:
  "appendTrace '' a'' '''' \<noteq> '' a''"
  by code_simp

text \<open>
  Claim C3. For every trace and every relay ID that is not empty after trimming,
  \<open>appendTrace\<close> computes what the specification describes (\<open>spec_append\<close>): the trimmed,
  non-empty comma-separated segments of the trace, followed by the trimmed relay ID, joined
  with commas; for a trace that is empty after trimming the result is the trimmed relay ID
  alone; and \<open>append(append("", "a"), "b") = "a,b"\<close>. A relay ID that is non-empty but all
  white space is treated as the empty one: the code returns the trimmed trace, where the
  description would append an empty segment.
\<close>

theorem C3_append_refines_spec:
  assumes "TrimSpace rid \<noteq> []"
  shows "appendTrace trace rid = spec_append trace rid \<and>
         (TrimSpace trace = [] \<longrightarrow> appendTrace trace rid = TrimSpace rid) \<and>
         appendTrace (appendTrace '''' ''a'') ''b'' = ''a,b''"
proof -
  have a: "appendTrace trace rid = spec_append trace rid"
    using assms by (rule appendTrace_spec)
  have b: "TrimSpace trace = [] \<longrightarrow> appendTrace trace rid = TrimSpace rid"
    using assms by (simp add: appendTrace_def)
  have c: "appendTrace (appendTrace '''' ''a'') ''b'' = ''a,b''" by code_simp
  from a b c show ?thesis by blast
qed

theorem C3_append_refines_spec_witness:
  "TrimSpace '' z '' \<noteq> [] \<and>
   appendTrace '' x, ,y '' '' z '' = ''x,y,z'' \<and>
   spec_append '' x, ,y '' '' z '' = ''x,y,z'' \<and>
   TrimSpace ''  '' = [] \<and>
   appendTrace ''  '' '' z '' = ''z''"
proof -
  have h: "TrimSpace '' z '' \<noteq> []" by code_simp
  have v: "spec_append '' x, ,y '' '' z '' = ''x,y,z''" by code_simp
  have e: "TrimSpace ''  '' = []" by code_simp
  have z: "TrimSpace '' z '' = ''z''" by code_simp
  note t1 = C3_append_refines_spec [OF h, of "'' x, ,y ''"]
  note t2 = C3_append_refines_spec [OF h, of "''  ''"]
  from t1 have "appendTrace '' x, ,y '' '' z '' = spec_append '' x, ,y '' '' z ''" by (rule conjunct1)
  then have r1: "appendTrace '' x, ,y '' '' z '' = ''x,y,z''" using v by (rule trans)
  from t2 e have "appendTrace ''  '' '' z '' = TrimSpace '' z ''" by blast
  then have r2: "appendTrace ''  '' '' z '' = ''z''" using z by (rule trans)
  from h r1 v e r2 show ?thesis by blast
qed

theorem C3_append_blank_id_counterexample:
  "appendTrace ''a'' '' '' \<noteq> spec_append ''a'' '' '' \<and>
   appendTrace ''a'' '' '' = ''a'' \<and> spec_append ''a'' '' '' = ''a,''"
  by code_simp

text \<open>
  Claim C4. \<open>traceContains trace rid\<close> holds if and only if the relay ID is not empty
  after trimming and some comma-separated segment of the trace, trimmed, equals the trimmed
  relay ID. So an empty or all-white-space relay ID is never contained;
  \<open>contains("a,b,c", "b")\<close> is true and \<open>contains("a,b,c", "")\<close> is false.
\<close>

theorem C4_contains_iff:
  "traceContains trace rid =
     (TrimSpace rid \<noteq> [] \<and> (\<exists>p\<in>set (Split trace CHR '',''). TrimSpace p = TrimSpace rid)) \<and>
   traceContains ''a,b,c'' ''b'' \<and> \<not> traceContains ''a,b,c'' ''''"
proof -
  have a: "traceContains trace rid =
     (TrimSpace rid \<noteq> [] \<and> (\<exists>p\<in>set (Split trace CHR '',''). TrimSpace p = TrimSpace rid))"
    by (simp add: traceContains_def traceContains_loop_iff Let_def)
  have b: "traceContains ''a,b,c'' ''b''" by code_simp
  have c: "\<not> traceContains ''a,b,c'' ''''" by code_simp
  from a b c show ?thesis by blast
qed

text \<open>
  Claim C5. An ID appended by the forwarder is found by the membership test of the
  receiving side: for every trace and every relay ID that is not empty after trimming and
  holds no comma, \<open>traceContains (appendTrace trace rid) rid\<close>.
\<close>

theorem C5_append_then_contains:
  assumes "TrimSpace rid \<noteq> []" and "CHR '','' \<notin> set rid"
  shows "traceContains (appendTrace trace rid) rid"
proof -
  let ?xs = "filter (\<lambda>p. p \<noteq> []) (map TrimSpace (Split trace CHR '','')) @ [TrimSpace rid]"
  have "appendTrace trace rid = Join ?xs '',''"
    using appendTrace_spec [OF assms(1)] by (simp add: spec_append_def)
  moreover have "Split (Join ?xs [CHR '','']) CHR '','' = ?xs"
    using appendTrace_comma_free [OF assms(2)] by (intro Split_Join) auto
  ultimately have "Split (appendTrace trace rid) CHR '','' = ?xs" by simp
  with assms(1) show ?thesis
    by (simp add: traceContains_def traceContains_loop_iff)
qed

theorem C5_append_then_contains_witness:
  "TrimSpace '' z '' \<noteq> [] \<and> CHR '','' \<notin> set '' z '' \<and>
   appendTrace ''x, y'' '' z '' = ''x,y,z'' \<and>
   traceContains (appendTrace ''x, y'' '' z '') '' z ''"
proof -
  have h1: "TrimSpace '' z '' \<noteq> []" by code_simp
  have h2: "CHR '','' \<notin> set '' z ''" by simp
  have v: "appendTrace ''x, y'' '' z '' = ''x,y,z''" by code_simp
  from C5_append_then_contains [OF h1 h2, of "''x, y''"] h1 h2 v show ?thesis by simp
qed

section \<open>Lemmas on path.Clean and joinPaths\<close>























section \<open>Properties of path resolution\<close>



section \<open>Lemmas on the relay handler\<close>

lemma methodAllowed_loop_iff:
  "methodAllowed_loop u m allowed \<longleftrightarrow> (\<exists>a\<in>set allowed. m = ToUpper u (TrimSpace a))"
  by (induction allowed) auto

lemma methodAllowed_iff:
  "methodAllowed u m allowed \<longleftrightarrow>
     allowed = [] \<or> (\<exists>a\<in>set allowed. ToUpper u (TrimSpace m) = ToUpper u (TrimSpace a))"
  by (auto simp: methodAllowed_def methodAllowed_loop_iff)

lemma handleRelay_not_allowed:
  assumes "\<not> methodAllowed u (Method req) (Methods relay)"
  shows "handleRelay u rnd fwd relay req =
     \<lparr>resp = \<lparr>Status = StatusMethodNotAllowed, RespHeader = Map.empty, Written = []\<rparr>,
      bodyRead = [], bodyClosed = False, forwardCall = None\<rparr>"
  using assms by (simp add: handleRelay_def)

lemma handleRelay_self_loop:
  assumes "methodAllowed u (Method req) (Methods relay)"
    and "ID relay \<noteq> []"
    and "traceContains (Get (map_of (Header req)) ''X-WebhookRelay-Trace'') (ID relay)"
  shows "handleRelay u rnd fwd relay req =
     \<lparr>resp = \<lparr>Status = StatusAccepted,
               RespHeader = Set Map.empty ''X-Relay-Dropped'' ''self_loop'',
               Written = ''accepted''\<rparr>,
      bodyRead = Body req, bodyClosed = True, forwardCall = None\<rparr>"
  using assms by (simp add: handleRelay_def)

lemma canon_dropped: "CanonicalHeaderKey ''X-Relay-Dropped'' = ''X-Relay-Dropped''"
  by code_simp

lemma canon_request_id: "CanonicalHeaderKey ''X-Relay-Request-Id'' = ''X-Relay-Request-Id''"
  by code_simp

lemma Set_empty_same: "CanonicalHeaderKey k = k \<Longrightarrow> Set Map.empty k v k = Some [v]"
  by (simp add: Set_def)

lemma Set_empty_other: "CanonicalHeaderKey k \<noteq> k' \<Longrightarrow> Set Map.empty k v k' = None"
  by (simp add: Set_def)

lemma status_distinct:
  "StatusAccepted \<noteq> StatusMethodNotAllowed" "StatusBadRequest \<noteq> StatusMethodNotAllowed"
  "StatusAccepted \<noteq> StatusBadRequest"
  by (simp_all add: StatusAccepted_def StatusMethodNotAllowed_def StatusBadRequest_def)

section \<open>Properties of the relay handler\<close>

text \<open>
  Claim C1, as the code has it. The method check comes first: a request whose method the
  relay does not allow is answered \<open>405\<close> whatever its trace header holds (\<open>exLoopGet\<close>). For
  every request whose method is allowed, to a relay with a non-empty ID that the trace
  header contains, the handler answers \<open>202 Accepted\<close> with the header \<open>X-Relay-Dropped\<close> set
  to \<open>self_loop\<close>, reads the whole body and closes it, does not call the forwarder and so
  starts no destination attempt.
\<close>

theorem C1_self_loop_dropped:
  assumes "methodAllowed u (Method req) (Methods relay)"
    and "ID relay \<noteq> []"
    and "traceContains (Get (map_of (Header req)) ''X-WebhookRelay-Trace'') (ID relay)"
  shows "Status (resp (handleRelay u rnd fwd relay req)) = StatusAccepted \<and>
         StatusAccepted = 202 \<and>
         RespHeader (resp (handleRelay u rnd fwd relay req)) ''X-Relay-Dropped'' = Some [''self_loop''] \<and>
         Get (RespHeader (resp (handleRelay u rnd fwd relay req))) ''X-Relay-Dropped'' = ''self_loop'' \<and>
         bodyRead (handleRelay u rnd fwd relay req) = Body req \<and>
         bodyClosed (handleRelay u rnd fwd relay req) \<and>
         forwardCall (handleRelay u rnd fwd relay req) = None \<and>
         attempts parseURL (handleRelay u rnd fwd relay req) = []"
  unfolding handleRelay_self_loop [OF assms]
  by (simp add: attempts_def Get_def Set_empty_same canon_dropped StatusAccepted_def)

theorem C1_self_loop_dropped_witness:
  "methodAllowed id (Method exLoopPost) (Methods exRelay) \<and>
   ID exRelay \<noteq> [] \<and>
   traceContains (Get (map_of (Header exLoopPost)) ''X-WebhookRelay-Trace'') (ID exRelay) \<and>
   Status (resp (handleRelay id None True exRelay exLoopPost)) = 202 \<and>
   Get (RespHeader (resp (handleRelay id None True exRelay exLoopPost))) ''X-Relay-Dropped'' = ''self_loop'' \<and>
   bodyRead (handleRelay id None True exRelay exLoopPost) = Body exLoopPost \<and>
   attempts exParseURL (handleRelay id None True exRelay exLoopPost) = []"
proof -
  have h1: "methodAllowed id (Method exLoopPost) (Methods exRelay)" by code_simp
  have h2: "ID exRelay \<noteq> []" by code_simp
  have h3: "traceContains (Get (map_of (Header exLoopPost)) ''X-WebhookRelay-Trace'') (ID exRelay)"
    by code_simp
  from C1_self_loop_dropped [OF h1 h2 h3, of None True exParseURL] h1 h2 h3
  show ?thesis by simp
qed

theorem C1_disallowed_method_counterexample:
  "ID exRelay \<noteq> [] \<and>
   traceContains (Get (map_of (Header exLoopGet)) ''X-WebhookRelay-Trace'') (ID exRelay) \<and>
   Status (resp (handleRelay id None True exRelay exLoopGet)) = 405 \<and>
   RespHeader (resp (handleRelay id None True exRelay exLoopGet)) ''X-Relay-Dropped'' = None \<and>
   bodyRead (handleRelay id None True exRelay exLoopGet) = []"
  by code_simp

text \<open>
  Claim C6. A method is allowed if and only if the allowed set is empty or the method,
  trimmed and in upper case, equals some entry of the set, trimmed and in upper case. For
  a relay with a non-empty allowed set and a request whose method matches no entry, the
  handler answers \<open>405 Method Not Allowed\<close>, does not call the forwarder and starts no
  destination attempt. With an empty allowed set every method is allowed and the answer
  is never \<open>405\<close>.
\<close>

theorem C6_method_check:
  "(methodAllowed u m allowed \<longleftrightarrow>
      allowed = [] \<or> (\<exists>a\<in>set allowed. ToUpper u (TrimSpace m) = ToUpper u (TrimSpace a))) \<and>
   (Methods relay \<noteq> [] \<and>
    (\<forall>a\<in>set (Methods relay). ToUpper u (TrimSpace (Method req)) \<noteq> ToUpper u (TrimSpace a)) \<longrightarrow>
      Status (resp (handleRelay u rnd fwd relay req)) = StatusMethodNotAllowed \<and>
      StatusMethodNotAllowed = 405 \<and>
      forwardCall (handleRelay u rnd fwd relay req) = None \<and>
      attempts parseURL (handleRelay u rnd fwd relay req) = []) \<and>
   (Methods relay = [] \<longrightarrow>
      methodAllowed u (Method req) (Methods relay) \<and>
      Status (resp (handleRelay u rnd fwd relay req)) \<noteq> StatusMethodNotAllowed)"
proof -
  have a: "methodAllowed u m allowed \<longleftrightarrow>
      allowed = [] \<or> (\<exists>a\<in>set allowed. ToUpper u (TrimSpace m) = ToUpper u (TrimSpace a))"
    by (rule methodAllowed_iff)
  have b: "Status (resp (handleRelay u rnd fwd relay req)) = StatusMethodNotAllowed \<and>
      StatusMethodNotAllowed = 405 \<and>
      forwardCall (handleRelay u rnd fwd relay req) = None \<and>
      attempts parseURL (handleRelay u rnd fwd relay req) = []"
    if "Methods relay \<noteq> []"
      and "\<forall>a\<in>set (Methods relay). ToUpper u (TrimSpace (Method req)) \<noteq> ToUpper u (TrimSpace a)"
  proof -
    from that have "\<not> methodAllowed u (Method req) (Methods relay)"
      by (simp add: methodAllowed_iff)
    then show ?thesis
      by (simp add: handleRelay_not_allowed attempts_def StatusMethodNotAllowed_def)
  qed
  have c: "methodAllowed u (Method req) (Methods relay) \<and>
      Status (resp (handleRelay u rnd fwd relay req)) \<noteq> StatusMethodNotAllowed"
    if "Methods relay = []"
    using that status_distinct by (simp add: methodAllowed_iff handleRelay_def Let_def)
  from a b c show ?thesis by blast
qed

theorem C6_method_check_witness:
  "Methods exRelay \<noteq> [] \<and>
   ToUpper id (TrimSpace (Method exLoopGet)) = ''GET'' \<and>
   map (\<lambda>a. ToUpper id (TrimSpace a)) (Methods exRelay) = [''POST''] \<and>
   Status (resp (handleRelay id None True exRelay exLoopGet)) = 405 \<and>
   attempts exParseURL (handleRelay id None True exRelay exLoopGet) = [] \<and>
   Methods (exRelay\<lparr>Methods := []\<rparr>) = [] \<and>
   Status (resp (handleRelay id None True (exRelay\<lparr>Methods := []\<rparr>) exLoopGet)) \<noteq> 405 \<and>
   methodAllowed id '' post '' [''get'', ''Post '']"
proof -
  have h1: "Methods exRelay \<noteq> []" by code_simp
  have h2: "\<forall>a\<in>set (Methods exRelay). ToUpper id (TrimSpace (Method exLoopGet)) \<noteq> ToUpper id (TrimSpace a)"
    by code_simp
  have h3: "Methods (exRelay\<lparr>Methods := []\<rparr>) = []" by simp
  have h4: "\<exists>a\<in>set [''get'', ''Post '']. ToUpper id (TrimSpace '' post '') = ToUpper id (TrimSpace a)"
    by code_simp
  note t1 = C6_method_check [of id "'' post ''" "[''get'', ''Post '']" exRelay exLoopGet None True exParseURL]
  note t2 = C6_method_check [of id "[]" "[]" "exRelay\<lparr>Methods := []\<rparr>" exLoopGet None True exParseURL]
  from t1 h1 h2 have r1: "Status (resp (handleRelay id None True exRelay exLoopGet)) = 405 \<and>
      attempts exParseURL (handleRelay id None True exRelay exLoopGet) = []" by simp
  from t2 h3 have r2: "Status (resp (handleRelay id None True (exRelay\<lparr>Methods := []\<rparr>) exLoopGet)) \<noteq> 405"
    by (simp add: StatusMethodNotAllowed_def)
  from t1 h4 have r3: "methodAllowed id '' post '' [''get'', ''Post '']" by blast
  have v1: "ToUpper id (TrimSpace (Method exLoopGet)) = ''GET''" by code_simp
  have v2: "map (\<lambda>a. ToUpper id (TrimSpace a)) (Methods exRelay) = [''POST'']" by code_simp
  from h1 v1 v2 h3 r1 r2 r3 show ?thesis by blast
qed

text \<open>
  Claim C8, as the code has it. The request ID is generated after the loop check, so the
  answer to a self-loop drop carries the drop-reason header and no correlation ID header
  (\<open>exLoopPost\<close>). For every inbound call answered \<open>202 Accepted\<close>: if it was dropped as a
  self-loop, the response carries \<open>X-Relay-Dropped: self_loop\<close>, no \<open>X-Relay-Request-Id\<close>,
  and nothing is forwarded; otherwise it carries \<open>X-Relay-Request-Id\<close> with the generated
  request ID (the ID handed to the forwarder; empty when the random source fails) and no
  \<open>X-Relay-Dropped\<close>. So the drop-reason header is present exactly on a self-loop drop.
\<close>

theorem C8_accepted_headers:
  assumes "Status (resp (handleRelay u rnd fwd relay req)) = StatusAccepted"
  shows "if ID relay \<noteq> [] \<and>
            traceContains (Get (map_of (Header req)) ''X-WebhookRelay-Trace'') (ID relay)
         then RespHeader (resp (handleRelay u rnd fwd relay req)) ''X-Relay-Dropped'' = Some [''self_loop''] \<and>
              RespHeader (resp (handleRelay u rnd fwd relay req)) ''X-Relay-Request-Id'' = None \<and>
              forwardCall (handleRelay u rnd fwd relay req) = None
         else RespHeader (resp (handleRelay u rnd fwd relay req)) ''X-Relay-Request-Id'' =
                Some [fst (newRequestID u rnd)] \<and>
              RespHeader (resp (handleRelay u rnd fwd relay req)) ''X-Relay-Dropped'' = None \<and>
              (fwd \<longrightarrow> map_option callReqID (forwardCall (handleRelay u rnd fwd relay req)) =
                 Some (fst (newRequestID u rnd)))"
proof -
  have ne: "''X-Relay-Dropped'' \<noteq> ''X-Relay-Request-Id''" by simp
  have ok: "methodAllowed u (Method req) (Methods relay)"
  proof (rule ccontr)
    assume "\<not> methodAllowed u (Method req) (Methods relay)"
    then have "Status (resp (handleRelay u rnd fwd relay req)) = StatusMethodNotAllowed"
      by (simp add: handleRelay_not_allowed)
    with assms status_distinct show False by simp
  qed
  show ?thesis
  proof (cases "ID relay \<noteq> [] \<and>
      traceContains (Get (map_of (Header req)) ''X-WebhookRelay-Trace'') (ID relay)")
    case True
    then have "handleRelay u rnd fwd relay req =
       \<lparr>resp = \<lparr>Status = StatusAccepted,
               RespHeader = Set Map.empty ''X-Relay-Dropped'' ''self_loop'',
               Written = ''accepted''\<rparr>,
        bodyRead = Body req, bodyClosed = True, forwardCall = None\<rparr>"
      using ok by (intro handleRelay_self_loop) auto
    with True show ?thesis
      by (simp add: Set_empty_same Set_empty_other canon_dropped)
  next
    case False
    have be: "\<not> BodyErr req"
    proof
      assume "BodyErr req"
      with ok False have "Status (resp (handleRelay u rnd fwd relay req)) = StatusBadRequest"
        by (auto simp: handleRelay_def)
      with assms status_distinct show False by simp
    qed
    with ok False show ?thesis
      by (auto simp: handleRelay_def Let_def Set_empty_same Set_empty_other canon_request_id)
  qed
qed

theorem C8_accepted_headers_witness:
  "Status (resp (handleRelay id (Some ''123456789012'') True exRelay exPost)) = StatusAccepted \<and>
   \<not> traceContains (Get (map_of (Header exPost)) ''X-WebhookRelay-Trace'') (ID exRelay) \<and>
   RespHeader (resp (handleRelay id (Some ''123456789012'') True exRelay exPost)) ''X-Relay-Request-Id'' =
     Some [''gezdgnbvgy3tqojqgeza''] \<and>
   RespHeader (resp (handleRelay id (Some ''123456789012'') True exRelay exPost)) ''X-Relay-Dropped'' = None \<and>
   map_option callReqID (forwardCall (handleRelay id (Some ''123456789012'') True exRelay exPost)) =
     Some ''gezdgnbvgy3tqojqgeza''"
proof -
  have h: "Status (resp (handleRelay id (Some ''123456789012'') True exRelay exPost)) = StatusAccepted"
    by code_simp
  have n: "\<not> (ID exRelay \<noteq> [] \<and> traceContains (Get (map_of (Header exPost)) ''X-WebhookRelay-Trace'') (ID exRelay))"
    by code_simp
  have v: "fst (newRequestID id (Some ''123456789012'')) = ''gezdgnbvgy3tqojqgeza''"
    by code_simp
  have i: "ID exRelay \<noteq> []" by code_simp
  from C8_accepted_headers [OF h] n
  have "RespHeader (resp (handleRelay id (Some ''123456789012'') True exRelay exPost)) ''X-Relay-Request-Id'' =
                Some [fst (newRequestID id (Some ''123456789012''))] \<and>
        RespHeader (resp (handleRelay id (Some ''123456789012'') True exRelay exPost)) ''X-Relay-Dropped'' = None \<and>
        map_option callReqID (forwardCall (handleRelay id (Some ''123456789012'') True exRelay exPost)) =
                 Some (fst (newRequestID id (Some ''123456789012'')))"
    by (simp only: if_False simp_thms)
  with h n i show ?thesis unfolding v by blast
qed

theorem C8_self_loop_counterexample:
  "Status (resp (handleRelay id (Some ''123456789012'') True exRelay exLoopPost)) = 202 \<and>
   RespHeader (resp (handleRelay id (Some ''123456789012'') True exRelay exLoopPost)) ''X-Relay-Request-Id'' = None \<and>
   Get (RespHeader (resp (handleRelay id (Some ''123456789012'') True exRelay exLoopPost))) ''X-Relay-Request-Id'' = []"
  by code_simp

section \<open>Lemmas on headers\<close>






























section \<open>Properties of the outbound request\<close>



section \<open>Lemmas on the digest and its encoding\<close>

lemma length_bytes32 [simp]: "length (bytes32 w) = 4"
  by (simp add: bytes32_def)

lemma length_digestBytes [simp]: "length (digestBytes hv) = 32"
  by (induction hv rule: digestBytes.induct) simp

lemma length_Sum256 [simp]: "length (Sum256 m) = 32"
  by (simp add: Sum256_def)

lemma length_five: "length xs = 5 \<Longrightarrow> \<exists>a b c d e. xs = [a, b, c, d, e]"
  by (auto simp: length_Suc_conv numeral_eq_Suc)

lemma quintet_less: "quintet bs < 32"
proof -
  have "length (take 5 (bs @ replicate 5 False)) = 5" by simp
  then obtain a b c d e where "take 5 (bs @ replicate 5 False) = [a, b, c, d, e]"
    using length_five by blast
  then show ?thesis by (simp add: quintet_def)
qed

lemma quintets_less: "\<forall>q\<in>set (quintets bits). q < 32"
  by (induction bits rule: quintets.induct) (simp_all add: quintet_less)

lemma length_quintets: "length (quintets bits) = (length bits + 4) div 5"
  by (induction bits rule: quintets.induct) simp_all

lemma length_bits: "length (concat (map bitsOf src)) = 8 * length src"
  by (induction src) (simp_all add: bitsOf_def)

lemma length_EncodeToString: "length (EncodeToString src) = (8 * length src + 4) div 5"
  by (simp add: EncodeToString_def length_quintets length_bits)

lemma set_EncodeToString: "set (EncodeToString src) \<subseteq> set encodeStd"
proof -
  have "length encodeStd = 32" by (simp add: encodeStd_def)
  then show ?thesis
    using quintets_less [of "concat (map bitsOf src)"]
    by (auto simp: EncodeToString_def)
qed

lemma encodeStd_ascii: "isASCII encodeStd"
  by code_simp

lemma encodeStd_lower: "map toLowerByte encodeStd = ''abcdefghijklmnopqrstuvwxyz234567''"
  by code_simp

lemma isASCII_EncodeToString: "isASCII (EncodeToString src)"
  using set_EncodeToString [of src] encodeStd_ascii
  by (auto simp: isASCII_def list_all_iff)

lemma ToLower_EncodeToString:
  "ToLower u (EncodeToString src) = map toLowerByte (EncodeToString src)"
  by (simp add: ToLower_def isASCII_EncodeToString)

section \<open>Properties of the relay ID\<close>

text \<open>
  Claim C9. For every listen path, \<open>relayID\<close> returns (it never panics on the slice) the
  first 16 characters of the lower-case, unpadded base-32 encoding of the SHA-256 digest
  of the path. The digest has 32 bytes and its encoding 52 characters, so the ID has
  exactly 16 characters, all of them lower-case letters or digits \<open>2\<close> to \<open>7\<close>. The ID
  depends on the path alone: the Unicode case tables, which \<open>strings.ToLower\<close> would use
  on a non-ASCII string, play no part. For the path \<open>/hook\<close> the ID is \<open>n7bnaul23xjjk7a3\<close>.
\<close>

theorem C9_relayID:
  "relayID u listenPath = Some (take 16 (map toLowerByte (EncodeToString (Sum256 listenPath)))) \<and>
   length (Sum256 listenPath) = 32 \<and>
   length (EncodeToString (Sum256 listenPath)) = 52 \<and>
   length (the (relayID u listenPath)) = 16 \<and>
   set (the (relayID u listenPath)) \<subseteq> set ''abcdefghijklmnopqrstuvwxyz234567'' \<and>
   relayID u listenPath = relayID u' listenPath \<and>
   relayID u ''/hook'' = Some ''n7bnaul23xjjk7a3''"
proof -
  let ?e = "EncodeToString (Sum256 listenPath)"
  have len: "length ?e = 52" by (simp add: length_EncodeToString)
  have r: "relayID v listenPath = Some (take 16 (map toLowerByte ?e))" for v
    using len by (simp add: relayID_def ToLower_EncodeToString Let_def)
  have "set (take 16 (map toLowerByte ?e)) \<subseteq> set (map toLowerByte ?e)"
    by (rule set_take_subset)
  also have "\<dots> \<subseteq> set (map toLowerByte encodeStd)"
    using set_EncodeToString [of "Sum256 listenPath"] by auto
  finally have cs: "set (take 16 (map toLowerByte ?e)) \<subseteq> set ''abcdefghijklmnopqrstuvwxyz234567''"
    by (simp only: encodeStd_lower)
  have ex: "relayID u ''/hook'' = Some ''n7bnaul23xjjk7a3''"
  proof -
    have "take 16 (map toLowerByte (EncodeToString (Sum256 ''/hook''))) = ''n7bnaul23xjjk7a3''"
      by code_simp
    then show ?thesis
      by (simp add: relayID_def ToLower_EncodeToString Let_def length_EncodeToString)
  qed
  have l16: "length (take 16 (map toLowerByte ?e)) = 16" using len by simp
  show ?thesis
    unfolding r using len cs ex l16 by (simp only: length_Sum256 option.sel simp_thms)
qed

end
